theory Spec2Isabelle
  imports Complex_Main
begin

section \<open>Shared DOM vocabulary\<close>

text \<open>
  The three actions of \<^verbatim>\<open>src/lib/actions\<close> and the helper \<^verbatim>\<open>formatTime\<close> are embedded
  as functions over explicit state. A DOM node is named by a number. A pointer event
  carries the two fields the actions read: \<^verbatim>\<open>pointerType\<close> and the result of
  \<^verbatim>\<open>composedPath()\<close>. A \<^verbatim>\<open>CustomEvent\<close> carries its type name and its \<^verbatim>\<open>detail\<close>.
\<close>

type_synonym node = nat

record PointerEvent =
  pointerType :: string
  composedPath :: "node list"

datatype detail = OriginalEvent PointerEvent | PointerType string

record CustomEvent =
  event_type :: string
  detail :: detail

section \<open>formatTime\<close>

text \<open>
  A JavaScript number is NaN, one of the two infinities, or a finite value. Finite values
  are taken as rationals and the arithmetic on them is exact: the rounding of the
  double-precision division is not part of the model, so the model stands for the code
  on whole numbers of seconds below \<open>2\<^sup>5\<^sup>3\<close>, where the quotient's rounding cannot reach
  the next integer and the minutes print in plain decimal notation.
\<close>

datatype number = NaN | Infinity | NegInfinity | Finite rat

definition Number_isFinite :: "number \<Rightarrow> bool" where
  "Number_isFinite x = (case x of Finite _ \<Rightarrow> True | _ \<Rightarrow> False)"

text \<open>The comparison \<^verbatim>\<open>x < 0\<close>: false on NaN.\<close>

definition less_zero :: "number \<Rightarrow> bool" where
  "less_zero x = (case x of Finite q \<Rightarrow> q < 0 | NegInfinity \<Rightarrow> True | _ \<Rightarrow> False)"

definition digit_char :: "nat \<Rightarrow> char" where
  "digit_char d = ''0123456789'' ! d"

function decimal :: "nat \<Rightarrow> string" where
  "decimal n = (if n < 10 then [digit_char n] else decimal (n div 10) @ [digit_char (n mod 10)])"
  by pat_completeness auto
termination
  by (relation "measure id") auto

declare decimal.simps [simp del]

text \<open>\<^verbatim>\<open>toString\<close> of an integral number (decimal notation, as for values below \<open>10\<^sup>2\<^sup>1\<close>).\<close>

definition toString :: "int \<Rightarrow> string" where
  "toString i = (if i < 0 then CHR ''-'' # decimal (nat (- i)) else decimal (nat i))"

text \<open>\<^verbatim>\<open>padStart\<close> with a pad string of one character.\<close>

definition padStart :: "string \<Rightarrow> nat \<Rightarrow> char \<Rightarrow> string" where
  "padStart s n c = replicate (n - length s) c @ s"

text \<open>The remainder \<^verbatim>\<open>x % y\<close>: the quotient is truncated towards zero.\<close>

definition remainder :: "rat \<Rightarrow> rat \<Rightarrow> rat" where
  "remainder x y = x - y * of_int (if x / y < 0 then \<lceil>x / y\<rceil> else \<lfloor>x / y\<rfloor>)"

definition formatTime :: "number \<Rightarrow> string" where
  "formatTime seconds =
     (if \<not> Number_isFinite seconds \<or> less_zero seconds then ''0:00''
      else case seconds of
        Finite q \<Rightarrow>
          (let mins = \<lfloor>q / 60\<rfloor>;
               secs = \<lfloor>remainder q 60\<rfloor>
           in toString mins @ '':'' @ padStart (toString secs) 2 (CHR ''0''))
      | _ \<Rightarrow> ''0:00'')"

text \<open>
  Reading a string of decimal digits back as a number, to say what the minutes and the
  seconds of the result stand for.
\<close>

definition digit_value :: "char \<Rightarrow> nat" where
  "digit_value c = of_char c - 48"

definition decimal_value :: "string \<Rightarrow> nat" where
  "decimal_value ds = foldl (\<lambda>a c. 10 * a + digit_value c) 0 ds"

definition is_digit :: "char \<Rightarrow> bool" where
  "is_digit c = (c \<in> set ''0123456789'')"

section \<open>clickOutside\<close>

text \<open>
  Each call of \<^verbatim>\<open>clickOutside\<close> creates a new closure \<^verbatim>\<open>onPointerDown\<close> over its node;
  the closure is named by a fresh number, so that two attachments to one node register
  two listeners. The document keeps its listener list: event type, listener, capture flag.
\<close>

datatype listener = OnPointerDown nat node

record document =
  doc_listeners :: "(string \<times> listener \<times> bool) list"
  next_closure :: nat

definition addEventListener ::
  "string \<Rightarrow> listener \<Rightarrow> bool \<Rightarrow> document \<Rightarrow> document" where
  "addEventListener ty l capture d =
     (if (ty, l, capture) \<in> set (doc_listeners d) then d
      else d\<lparr>doc_listeners := doc_listeners d @ [(ty, l, capture)]\<rparr>)"

definition removeEventListener ::
  "string \<Rightarrow> listener \<Rightarrow> bool \<Rightarrow> document \<Rightarrow> document" where
  "removeEventListener ty l capture d =
     d\<lparr>doc_listeners := filter (\<lambda>x. x \<noteq> (ty, l, capture)) (doc_listeners d)\<rparr>"

text \<open>The events \<^verbatim>\<open>onPointerDown\<close> dispatches, each with the node it is dispatched on.\<close>

definition onPointerDown :: "node \<Rightarrow> PointerEvent \<Rightarrow> (node \<times> CustomEvent) list" where
  "onPointerDown node e =
     (if node \<notin> set (composedPath e)
      then [(node, \<lparr>event_type = ''clickoutside'', detail = OriginalEvent e\<rparr>)]
      else [])"

fun run_listener :: "listener \<Rightarrow> PointerEvent \<Rightarrow> (node \<times> CustomEvent) list" where
  "run_listener (OnPointerDown c node) e = onPointerDown node e"

text \<open>
  The action: it registers the closure in the capture phase and returns the handle, here
  the listener that the handle's \<^verbatim>\<open>destroy\<close> closes over.
\<close>

definition clickOutside :: "node \<Rightarrow> document \<Rightarrow> listener \<times> document" where
  "clickOutside node d =
     (let l = OnPointerDown (next_closure d) node
      in (l, addEventListener ''pointerdown'' l True (d\<lparr>next_closure := next_closure d + 1\<rparr>)))"

definition clickOutside_destroy :: "listener \<Rightarrow> document \<Rightarrow> document" where
  "clickOutside_destroy l d = removeEventListener ''pointerdown'' l True d"

text \<open>
  An event of type \<open>ty\<close> that reaches the document runs the capture listeners of that
  type, then the others, each in registration order.
\<close>

definition document_dispatch ::
  "string \<Rightarrow> PointerEvent \<Rightarrow> document \<Rightarrow> (node \<times> CustomEvent) list" where
  "document_dispatch ty e d =
     concat (map (\<lambda>(t, l, c). run_listener l e)
       (filter (\<lambda>(t, l, c). t = ty \<and> c) (doc_listeners d) @
        filter (\<lambda>(t, l, c). t = ty \<and> \<not> c) (doc_listeners d)))"

section \<open>longpress\<close>

text \<open>
  The state of one attachment: the closure variables \<^verbatim>\<open>timer\<close> and \<^verbatim>\<open>ms\<close>, and the part
  of the browser the action touches: the node's \<^verbatim>\<open>style.userSelect\<close>, the listeners the
  node holds, the window's pending timers, the clock (in milliseconds) and the custom
  events dispatched on the node so far. The threshold is an integer number of
  milliseconds.
\<close>

record LongpressParams =
  ms_param :: "int option"

datatype handler = Start | Stop

text \<open>
  A pending timer of \<^verbatim>\<open>window.setTimeout\<close>: its id, the delay argument as passed, the
  time it is due and the event its callback closes over.
\<close>

record pending_timer =
  tid :: nat
  delay :: int
  due :: int
  captured :: PointerEvent

record longpress_state =
  lp_node :: node
  timer :: "nat option"
  ms :: int
  userSelect :: string
  listeners :: "(string \<times> handler) list"
  timers :: "pending_timer list"
  next_timer :: nat
  clock :: int
  dispatched :: "CustomEvent list"

text \<open>
  The platform. A timer keeps its delay in 32 bits: a delay above \<open>2\<^sup>3\<^sup>1 - 1\<close> does not
  fit and the timer runs after 1 ms instead; a delay below zero counts as zero.
  \<^verbatim>\<open>clearTimeout\<close> of an id that is not pending does nothing; \<^verbatim>\<open>addEventListener\<close> ignores
  a listener that is already registered for the same type.
\<close>

definition timer_delay :: "int \<Rightarrow> int" where
  "timer_delay d = (if 2147483647 < d then 1 else max 0 d)"

definition setTimeout :: "PointerEvent \<Rightarrow> int \<Rightarrow> longpress_state \<Rightarrow> nat \<times> longpress_state" where
  "setTimeout e d s =
     (next_timer s,
      s\<lparr>timers := timers s @
            [\<lparr>tid = next_timer s, delay = d, due = clock s + timer_delay d, captured = e\<rparr>],
        next_timer := next_timer s + 1\<rparr>)"

definition clearTimeout :: "nat \<Rightarrow> longpress_state \<Rightarrow> longpress_state" where
  "clearTimeout t s = s\<lparr>timers := filter (\<lambda>p. tid p \<noteq> t) (timers s)\<rparr>"

definition node_addEventListener ::
  "string \<Rightarrow> handler \<Rightarrow> longpress_state \<Rightarrow> longpress_state" where
  "node_addEventListener ty h s =
     (if (ty, h) \<in> set (listeners s) then s
      else s\<lparr>listeners := listeners s @ [(ty, h)]\<rparr>)"

text \<open>The closures of the action.\<close>

definition clear :: "longpress_state \<Rightarrow> longpress_state" where
  "clear s = (case timer s of None \<Rightarrow> s | Some t \<Rightarrow> clearTimeout t s)\<lparr>timer := None\<rparr>"

definition timer_callback :: "PointerEvent \<Rightarrow> longpress_state \<Rightarrow> longpress_state" where
  "timer_callback e s =
     clear (s\<lparr>dispatched := dispatched s @
              [\<lparr>event_type = ''longpress'', detail = PointerType (pointerType e)\<rparr>]\<rparr>)"

definition start :: "PointerEvent \<Rightarrow> longpress_state \<Rightarrow> longpress_state" where
  "start e s =
     (let s1 = clear s;
          s2 = s1\<lparr>userSelect := ''none''\<rparr>;
          (t, s3) = setTimeout e (ms s2) s2
      in s3\<lparr>timer := Some t\<rparr>)"

definition stop :: "longpress_state \<Rightarrow> longpress_state" where
  "stop s = clear (s\<lparr>userSelect := []\<rparr>)"

text \<open>\<^verbatim>\<open>params?.ms ?? 600\<close>\<close>

definition ms_of :: "LongpressParams option \<Rightarrow> int" where
  "ms_of params =
     (case params of None \<Rightarrow> 600
      | Some p \<Rightarrow> (case ms_param p of None \<Rightarrow> 600 | Some m \<Rightarrow> m))"

text \<open>
  The action, attached to a node that holds no listener of it yet and has the empty
  \<^verbatim>\<open>userSelect\<close>, at time 0. Timer ids start at 1.
\<close>

definition longpress :: "node \<Rightarrow> LongpressParams option \<Rightarrow> longpress_state" where
  "longpress n params =
     node_addEventListener ''pointerleave'' Stop
       (node_addEventListener ''pointercancel'' Stop
         (node_addEventListener ''pointerup'' Stop
           (node_addEventListener ''pointerdown'' Start
             \<lparr>lp_node = n, timer = None, ms = ms_of params, userSelect = [],
              listeners = [], timers = [], next_timer = 1, clock = 0, dispatched = []\<rparr>)))"

definition update :: "LongpressParams option \<Rightarrow> longpress_state \<Rightarrow> longpress_state" where
  "update next s = s\<lparr>ms := ms_of next\<rparr>"

definition destroy :: "longpress_state \<Rightarrow> longpress_state" where
  "destroy s =
     node_addEventListener ''pointerleave'' Stop
       (node_addEventListener ''pointercancel'' Stop
         (node_addEventListener ''pointerup'' Stop
           (node_addEventListener ''pointerdown'' Start s)))"

text \<open>A pointer event of type \<open>ty\<close> on the node runs the node's listeners of that type.\<close>

fun run_handler :: "handler \<Rightarrow> PointerEvent \<Rightarrow> longpress_state \<Rightarrow> longpress_state" where
  "run_handler Start e s = start e s"
| "run_handler Stop e s = stop s"

definition node_dispatch :: "string \<Rightarrow> PointerEvent \<Rightarrow> longpress_state \<Rightarrow> longpress_state" where
  "node_dispatch ty e s =
     fold (\<lambda>(t, h) s'. if t = ty then run_handler h e s' else s') (listeners s) s"

text \<open>
  The event loop: among the pending timers that are due at time \<open>t\<close> the earliest runs
  first (the older one on a tie); a timer leaves the pending list before its callback runs.
\<close>

fun next_due :: "int \<Rightarrow> pending_timer list \<Rightarrow> pending_timer option" where
  "next_due t [] = None"
| "next_due t (p # ps) =
     (case next_due t ps of
        None \<Rightarrow> (if due p \<le> t then Some p else None)
      | Some q \<Rightarrow> (if due p \<le> due q then Some p else Some q))"

definition fire :: "pending_timer \<Rightarrow> longpress_state \<Rightarrow> longpress_state" where
  "fire p s =
     timer_callback (captured p)
       (s\<lparr>timers := filter (\<lambda>q. tid q \<noteq> tid p) (timers s), clock := max (clock s) (due p)\<rparr>)"

function run_timers :: "int \<Rightarrow> longpress_state \<Rightarrow> longpress_state" where
  "run_timers t s =
     (case next_due t (timers s) of
        None \<Rightarrow> s
      | Some p \<Rightarrow> run_timers t (fire p s))"
  by pat_completeness auto
termination
proof (relation "measure (\<lambda>(t, s). length (timers s))", goal_cases)
  case 1
  show ?case by simp
next
  case (2 t s p)
  have mem: "q \<in> set ps" if "next_due t ps = Some q" for ps q
    using that by (induction ps arbitrary: q) (auto split: option.splits if_splits)
  have "p \<in> set (timers s)"
    using 2 mem by simp
  then have less: "length (filter (\<lambda>q. tid q \<noteq> tid p) (timers s)) < length (timers s)"
    by (intro length_filter_less[of p]) simp_all
  have le: "length (filter (\<lambda>q. tid q \<noteq> a \<and> tid q \<noteq> b) ps) \<le> length (filter (\<lambda>q. tid q \<noteq> a) ps)"
    for a b and ps :: "pending_timer list"
    by (induction ps) auto
  have "length (timers (fire p s)) \<le> length (filter (\<lambda>q. tid q \<noteq> tid p) (timers s))"
    by (simp add: fire_def timer_callback_def clear_def clearTimeout_def le split: option.splits)
  with less show ?case by simp
qed

declare run_timers.simps [simp del]

definition elapse :: "nat \<Rightarrow> longpress_state \<Rightarrow> longpress_state" where
  "elapse d s = (run_timers (clock s + int d) s)\<lparr>clock := clock s + int d\<rparr>"

text \<open>What can happen to an attachment, and a run of such inputs.\<close>

datatype input =
    PointerDown PointerEvent
  | PointerUp PointerEvent
  | PointerCancel PointerEvent
  | PointerLeave PointerEvent
  | Elapse nat
  | Update "LongpressParams option"
  | Destroy

fun step :: "input \<Rightarrow> longpress_state \<Rightarrow> longpress_state" where
  "step (PointerDown e) s = node_dispatch ''pointerdown'' e s"
| "step (PointerUp e) s = node_dispatch ''pointerup'' e s"
| "step (PointerCancel e) s = node_dispatch ''pointercancel'' e s"
| "step (PointerLeave e) s = node_dispatch ''pointerleave'' e s"
| "step (Elapse d) s = elapse d s"
| "step (Update next) s = update next s"
| "step Destroy s = destroy s"

definition run :: "input list \<Rightarrow> longpress_state \<Rightarrow> longpress_state" where
  "run is s = fold step is s"

text \<open>
  The four listeners the action registers, and the link between the closure variable
  \<^verbatim>\<open>timer\<close> and the window's pending timers: the action has at most one timer pending,
  the one \<^verbatim>\<open>timer\<close> names.
\<close>

definition registered :: "(string \<times> handler) list" where
  "registered =
     [(''pointerdown'', Start), (''pointerup'', Stop),
      (''pointercancel'', Stop), (''pointerleave'', Stop)]"

definition attached :: "longpress_state \<Rightarrow> bool" where
  "attached s \<longleftrightarrow>
     listeners s = registered \<and>
     map tid (timers s) = (case timer s of None \<Rightarrow> [] | Some t \<Rightarrow> [t])"

definition longpress_event :: "PointerEvent \<Rightarrow> CustomEvent" where
  "longpress_event e = \<lparr>event_type = ''longpress'', detail = PointerType (pointerType e)\<rparr>"

text \<open>
  Inputs that are neither a pointer-down nor one of the three interruptions, the time a
  run of inputs takes, the interruptions, and the inputs that start no press.
\<close>

fun quiet :: "input \<Rightarrow> bool" where
  "quiet (Elapse d) = True"
| "quiet (Update next) = True"
| "quiet Destroy = True"
| "quiet _ = False"

fun elapsed :: "input list \<Rightarrow> nat" where
  "elapsed [] = 0"
| "elapsed (Elapse d # is) = d + elapsed is"
| "elapsed (i # is) = elapsed is"

fun interruption :: "input \<Rightarrow> bool" where
  "interruption (PointerUp e) = True"
| "interruption (PointerCancel e) = True"
| "interruption (PointerLeave e) = True"
| "interruption _ = False"

fun no_press :: "input \<Rightarrow> bool" where
  "no_press (PointerDown e) = False"
| "no_press _ = True"

text \<open>A pointer-down of a mouse, for the concrete runs below.\<close>

definition mouse_down :: PointerEvent where
  "mouse_down = \<lparr>pointerType = ''mouse'', composedPath = [0]\<rparr>"

section \<open>tooltip\<close>

record TooltipParams =
  content :: string
  placement :: "string option"

record Props =
  props_content :: string
  props_placement :: string

datatype exn = TippyError | TypeError

datatype tippy_call = Create node Props | DestroyInstance nat

text \<open>
  Modelled from the spec: the external tooltip library \<^verbatim>\<open>tippy.js\<close>, which the action
  imports and the repository does not contain. The spec requires of it only
  \<^verbatim>\<open>create(element, options)\<close>, which returns an instance or throws, and
  \<^verbatim>\<open>instance.destroy()\<close>. The library is a world of live instances (id, element,
  options) with a log of the calls made to it; whether a create call throws is decided
  by the parameter \<open>throws\<close>. Destroying an instance that is not live changes nothing
  but the log.
\<close>

record tippy_world =
  instances :: "(nat \<times> node \<times> Props) list"
  next_instance :: nat
  calls :: "tippy_call list"

type_synonym thrower = "tippy_world \<Rightarrow> node \<Rightarrow> Props \<Rightarrow> bool"

definition tippy :: "thrower \<Rightarrow> node \<Rightarrow> Props \<Rightarrow> tippy_world \<Rightarrow> (exn + nat) \<times> tippy_world" where
  "tippy throws n props w =
     (if throws w n props then (Inl TippyError, w\<lparr>calls := calls w @ [Create n props]\<rparr>)
      else (Inr (next_instance w),
            w\<lparr>instances := instances w @ [(next_instance w, n, props)],
              next_instance := next_instance w + 1,
              calls := calls w @ [Create n props]\<rparr>))"

definition instance_destroy :: "nat \<Rightarrow> tippy_world \<Rightarrow> tippy_world" where
  "instance_destroy i w =
     w\<lparr>instances := filter (\<lambda>(j, n, props). j \<noteq> i) (instances w),
       calls := calls w @ [DestroyInstance i]\<rparr>"

definition never_throws :: thrower where
  "never_throws w n props = False"

definition always_throws :: thrower where
  "always_throws w n props = True"

definition throws_on :: "string \<Rightarrow> thrower" where
  "throws_on c w n props = (props_content props = c)"

text \<open>
  The action; \<^verbatim>\<open>setup\<close> is \<open>setup_tooltip\<close> here. Its state is the closure variable
  \<^verbatim>\<open>instance\<close> (\<open>instance_ref\<close> here) and the library's world. An
  exception leaves the state as it was when it was thrown, so every operation returns
  the exception, if any, beside the state.
\<close>

record tooltip_state =
  instance_ref :: "nat option"
  world :: tippy_world

definition props_of :: "TooltipParams \<Rightarrow> Props" where
  "props_of p =
     \<lparr>props_content = content p,
      props_placement = (case placement p of None \<Rightarrow> ''top'' | Some x \<Rightarrow> x)\<rparr>"

definition setup_tooltip :: "thrower \<Rightarrow> node \<Rightarrow> TooltipParams \<Rightarrow> tooltip_state \<Rightarrow> exn option \<times> tooltip_state" where
  "setup_tooltip throws n p st =
     (let w1 = (case instance_ref st of None \<Rightarrow> world st | Some i \<Rightarrow> instance_destroy i (world st))
      in case tippy throws n (props_of p) w1 of
           (Inl e, w2) \<Rightarrow> (Some e, st\<lparr>world := w2\<rparr>)
         | (Inr i, w2) \<Rightarrow> (None, st\<lparr>instance_ref := Some i, world := w2\<rparr>))"

text \<open>
  The returned object has the keys \<^verbatim>\<open>update\<close> and \<^verbatim>\<open>destory\<close>, in the source's spelling.
\<close>

datatype closure = Update_closure | Destory_closure

definition tooltip_update :: "thrower \<Rightarrow> node \<Rightarrow> TooltipParams \<Rightarrow> tooltip_state \<Rightarrow> exn option \<times> tooltip_state" where
  "tooltip_update throws n next st = setup_tooltip throws n next st"

definition tooltip_destory :: "tooltip_state \<Rightarrow> tooltip_state" where
  "tooltip_destory st =
     (case instance_ref st of None \<Rightarrow> st
      | Some i \<Rightarrow> st\<lparr>world := instance_destroy i (world st)\<rparr>)"

definition tooltip ::
  "thrower \<Rightarrow> node \<Rightarrow> TooltipParams \<Rightarrow> tippy_world \<Rightarrow> (exn + (string \<times> closure) list) \<times> tooltip_state" where
  "tooltip throws n params w =
     (case setup_tooltip throws n params \<lparr>instance_ref = None, world = w\<rparr> of
        (Some e, st) \<Rightarrow> (Inl e, st)
      | (None, st) \<Rightarrow> (Inr [(''update'', Update_closure), (''destory'', Destory_closure)], st))"

text \<open>
  \<^verbatim>\<open>handle.name(arg)\<close>: calling a key the object does not have throws a TypeError; a
  function without parameter ignores the argument. \<^verbatim>\<open>handle.name?.(arg)\<close> skips the call
  when the key is missing.
\<close>

definition call_member ::
  "thrower \<Rightarrow> node \<Rightarrow> (string \<times> closure) list \<Rightarrow> string \<Rightarrow> TooltipParams \<Rightarrow> tooltip_state
     \<Rightarrow> exn option \<times> tooltip_state" where
  "call_member throws n h name arg st =
     (case map_of h name of
        None \<Rightarrow> (Some TypeError, st)
      | Some Update_closure \<Rightarrow> tooltip_update throws n arg st
      | Some Destory_closure \<Rightarrow> (None, tooltip_destory st))"

definition optional_call ::
  "thrower \<Rightarrow> node \<Rightarrow> (string \<times> closure) list \<Rightarrow> string \<Rightarrow> TooltipParams \<Rightarrow> tooltip_state
     \<Rightarrow> exn option \<times> tooltip_state" where
  "optional_call throws n h name arg st =
     (case map_of h name of
        None \<Rightarrow> (None, st)
      | Some m \<Rightarrow> call_member throws n h name arg st)"





text \<open>
  A world without instances and a configuration with the default placement, for the
  concrete runs below.
\<close>

definition empty_world :: tippy_world where
  "empty_world = \<lparr>instances = [], next_instance = 0, calls = []\<rparr>"

definition tip :: "string \<Rightarrow> TooltipParams" where
  "tip c = \<lparr>content = c, placement = None\<rparr>"

section \<open>Properties of formatTime\<close>

lemma digit_char_props:
  assumes "d < 10"
  shows "digit_value (digit_char d) = d" and "is_digit (digit_char d)"
    and "d \<noteq> 0 \<Longrightarrow> digit_char d \<noteq> CHR ''0''" and "digit_char 0 = CHR ''0''"
proof -
  from assms have "d \<in> {0, 1, 2, 3, 4, 5, 6, 7, 8, 9}" by auto
  then show "digit_value (digit_char d) = d" "is_digit (digit_char d)"
    "d \<noteq> 0 \<Longrightarrow> digit_char d \<noteq> CHR ''0''"
    by (auto simp: digit_char_def digit_value_def is_digit_def)
  show "digit_char 0 = CHR ''0''" by (simp add: digit_char_def)
qed

lemma decimal_value_snoc: "decimal_value (ds @ [c]) = 10 * decimal_value ds + digit_value c"
  by (simp add: decimal_value_def)

lemma decimal_not_Nil: "decimal n \<noteq> []"
  by (subst decimal.simps) simp

lemma decimal_roundtrip: "decimal_value (decimal n) = n"
proof (induction n rule: decimal.induct)
  case (1 n)
  show ?case
  proof (cases "n < 10")
    case True
    then show ?thesis
      by (subst decimal.simps) (simp add: decimal_value_def digit_char_props)
  next
    case False
    with 1 have "decimal_value (decimal (n div 10)) = n div 10" by simp
    with False show ?thesis
      by (subst decimal.simps) (simp add: decimal_value_snoc digit_char_props)
  qed
qed

lemma decimal_digits: "list_all is_digit (decimal n)"
proof (induction n rule: decimal.induct)
  case (1 n)
  show ?case
  proof (cases "n < 10")
    case True
    then show ?thesis
      by (subst decimal.simps) (simp add: digit_char_props)
  next
    case False
    with 1 have "list_all is_digit (decimal (n div 10))" by simp
    with False show ?thesis
      by (subst decimal.simps) (simp add: digit_char_props)
  qed
qed

lemma decimal_no_leading_zero: "n \<noteq> 0 \<Longrightarrow> hd (decimal n) \<noteq> CHR ''0''"
proof (induction n rule: decimal.induct)
  case (1 n)
  show ?case
  proof (cases "n < 10")
    case True
    with 1(2) show ?thesis
      by (subst decimal.simps) (simp add: digit_char_props)
  next
    case False
    then have "n div 10 \<noteq> 0" by simp
    with 1 False have "hd (decimal (n div 10)) \<noteq> CHR ''0''" by simp
    with False show ?thesis
      by (subst decimal.simps) (simp add: decimal_not_Nil)
  qed
qed

lemma two_digits:
  assumes "s < 60"
  shows "padStart (decimal s) 2 (CHR ''0'') = [digit_char (s div 10), digit_char (s mod 10)]"
proof (cases "s < 10")
  case True
  then show ?thesis
    by (subst decimal.simps) (simp add: padStart_def digit_char_props)
next
  case False
  with assms have "s div 10 < 10" by simp
  with False show ?thesis
    by (subst decimal.simps, subst decimal.simps) (simp add: padStart_def)
qed

lemma formatTime_whole:
  assumes "s < 60"
  shows "formatTime (Finite (of_nat (60 * m + s))) =
           decimal m @ '':'' @ [digit_char (s div 10), digit_char (s mod 10)]"
proof -
  let ?q = "of_nat (60 * m + s) :: rat"
  have q: "?q / 60 = of_nat m + of_nat s / 60" by (simp add: field_simps)
  have fl: "\<lfloor>?q / 60\<rfloor> = int m"
  proof -
    have "\<lfloor>?q / of_nat 60\<rfloor> = int ((60 * m + s) div 60)"
      by (rule floor_divide_of_nat_eq)
    with assms show ?thesis by simp
  qed
  have nn: "\<not> ?q / 60 < 0"
    by (simp add: not_less)
  have rm: "remainder ?q 60 = of_nat s"
    using nn fl by (simp add: remainder_def)
  have "formatTime (Finite ?q) = toString (int m) @ '':'' @ padStart (toString (int s)) 2 (CHR ''0'')"
    using fl rm by (simp add: formatTime_def Number_isFinite_def less_zero_def Let_def not_less)
  then show ?thesis
    using assms by (simp add: toString_def two_digits)
qed

text \<open>
  C9: \<^verbatim>\<open>formatTime\<close> maps 0 to "0:00", 30 to "0:30", 90 to "1:30" and 3661 to "61:01", and
  it maps NaN, both infinities and every negative number to "0:00". In general, for
  \<open>m\<close> minutes and \<open>s < 60\<close> seconds (a whole number of seconds below \<open>2\<^sup>5\<^sup>3\<close>) the result
  is the decimal numeral of \<open>m\<close>, a colon and the two digits of \<open>s\<close>: the minutes are never
  folded into hours. The numeral of \<open>m\<close> consists of digits, reads back as \<open>m\<close> and has
  no leading zero; the two digits read back as \<open>s\<close>.
\<close>

theorem formatTime_values:
  "formatTime (Finite 0) = ''0:00'' \<and>
   formatTime (Finite 30) = ''0:30'' \<and>
   formatTime (Finite 90) = ''1:30'' \<and>
   formatTime (Finite 3661) = ''61:01'' \<and>
   formatTime NaN = ''0:00'' \<and>
   formatTime Infinity = ''0:00'' \<and>
   formatTime NegInfinity = ''0:00'' \<and>
   (q < 0 \<longrightarrow> formatTime (Finite q) = ''0:00'') \<and>
   (s < 60 \<and> 60 * m + s < 2 ^ 53 \<longrightarrow>
      formatTime (Finite (of_nat (60 * m + s))) =
        decimal m @ '':'' @ [digit_char (s div 10), digit_char (s mod 10)] \<and>
      decimal_value (decimal m) = m \<and>
      list_all is_digit (decimal m) \<and>
      (m \<noteq> 0 \<longrightarrow> hd (decimal m) \<noteq> CHR ''0'') \<and>
      decimal_value [digit_char (s div 10), digit_char (s mod 10)] = s \<and>
      is_digit (digit_char (s div 10)) \<and> is_digit (digit_char (s mod 10)))"
proof -
  have a: "formatTime (Finite 0) = ''0:00''" by code_simp
  have a': "formatTime (Finite 30) = ''0:30''" by code_simp
  have b: "formatTime (Finite 90) = ''1:30''" by code_simp
  have c: "formatTime (Finite 3661) = ''61:01''" by code_simp
  have d: "formatTime NaN = ''0:00''" "formatTime Infinity = ''0:00''"
    "formatTime NegInfinity = ''0:00''"
    by (simp_all add: formatTime_def Number_isFinite_def)
  have e: "q < 0 \<longrightarrow> formatTime (Finite q) = ''0:00''"
    by (simp add: formatTime_def less_zero_def)
  have g: "formatTime (Finite (of_nat (60 * m + s))) =
        decimal m @ '':'' @ [digit_char (s div 10), digit_char (s mod 10)] \<and>
      decimal_value (decimal m) = m \<and>
      list_all is_digit (decimal m) \<and>
      (m \<noteq> 0 \<longrightarrow> hd (decimal m) \<noteq> CHR ''0'') \<and>
      decimal_value [digit_char (s div 10), digit_char (s mod 10)] = s \<and>
      is_digit (digit_char (s div 10)) \<and> is_digit (digit_char (s mod 10))"
    if s: "s < 60"
  proof -
    from s have lt: "s div 10 < 10" "s mod 10 < 10" by simp_all
    have v: "decimal_value [digit_char (s div 10), digit_char (s mod 10)] = s"
      using decimal_value_snoc [of "[digit_char (s div 10)]" "digit_char (s mod 10)"] lt
      by (simp add: digit_char_props) (simp add: decimal_value_def digit_char_props)
    from formatTime_whole [OF s] decimal_roundtrip decimal_digits decimal_no_leading_zero v lt
    show ?thesis by (simp add: digit_char_props)
  qed
  from a a' b c d e g show ?thesis by blast
qed

theorem formatTime_values_witness:
  "(- 10 :: rat) < 0 \<and> formatTime (Finite (- 10)) = ''0:00'' \<and>
   (1 :: nat) < 60 \<and> 60 * 61 + 1 < (2 :: nat) ^ 53 \<and> (61 :: nat) \<noteq> 0 \<and>
   formatTime (Finite (of_nat (60 * 61 + 1))) = ''61:01'' \<and>
   decimal_value ''61'' = 61 \<and> hd (decimal 61) \<noteq> CHR ''0''"
proof -
  have d: "decimal 61 = ''61''" "digit_char (1 div 10) = CHR ''0''" "digit_char (1 mod 10) = CHR ''1''"
    by code_simp+
  from formatTime_values [where q = "- 10" and s = 1 and m = 61] d
  show ?thesis by simp
qed

section \<open>Properties of clickOutside\<close>

lemma run_listener_node:
  "(E, ev) \<in> set (run_listener l e) \<Longrightarrow>
     ev = \<lparr>event_type = ''clickoutside'', detail = OriginalEvent e\<rparr> \<and> E \<notin> set (composedPath e)"
  by (cases l) (auto simp: onPointerDown_def split: if_splits)

text \<open>
  C5: while an attachment to the element \<open>E\<close> is live, a pointer-down event \<open>e\<close> that
  reaches the document makes the attachment's listener dispatch the \<^verbatim>\<open>clickoutside\<close> event
  on \<open>E\<close>, with \<open>e\<close> as its original event, if and only if \<open>E\<close> is not in the composed path
  of \<open>e\<close>; the listener dispatches nothing else.
\<close>

theorem clickOutside_fires_iff:
  "run_listener (fst (clickOutside E d)) e =
     (if E \<in> set (composedPath e) then []
      else [(E, \<lparr>event_type = ''clickoutside'', detail = OriginalEvent e\<rparr>)]) \<and>
   (''pointerdown'', fst (clickOutside E d), True) \<in> set (doc_listeners (snd (clickOutside E d))) \<and>
   ((E, \<lparr>event_type = ''clickoutside'', detail = OriginalEvent e\<rparr>)
       \<in> set (document_dispatch ''pointerdown'' e (snd (clickOutside E d)))
     \<longleftrightarrow> E \<notin> set (composedPath e))"
proof -
  let ?h = "fst (clickOutside E d)" and ?d = "snd (clickOutside E d)"
  let ?ev = "\<lparr>event_type = ''clickoutside'', detail = OriginalEvent e\<rparr>"
  have h: "?h = OnPointerDown (next_closure d) E"
    by (simp add: clickOutside_def Let_def)
  have 1: "run_listener ?h e = (if E \<in> set (composedPath e) then [] else [(E, ?ev)])"
    by (simp add: h onPointerDown_def)
  have 2: "(''pointerdown'', ?h, True) \<in> set (doc_listeners ?d)"
    by (simp add: clickOutside_def Let_def addEventListener_def)
  have 3: "(E, ?ev) \<in> set (document_dispatch ''pointerdown'' e ?d) \<longleftrightarrow> E \<notin> set (composedPath e)"
  proof
    assume "(E, ?ev) \<in> set (document_dispatch ''pointerdown'' e ?d)"
    then show "E \<notin> set (composedPath e)"
      by (auto simp: document_dispatch_def dest: run_listener_node)
  next
    assume "E \<notin> set (composedPath e)"
    with 1 have "(E, ?ev) \<in> set (run_listener ?h e)"
      by simp
    with 2 show "(E, ?ev) \<in> set (document_dispatch ''pointerdown'' e ?d)"
      by (force simp: document_dispatch_def)
  qed
  from 1 2 3 show ?thesis by blast
qed

section \<open>Properties of longpress\<close>

subsection \<open>The handlers on an attached state\<close>

lemma dispatch_registered:
  assumes "listeners s = registered"
  shows "node_dispatch ''pointerdown'' e s = start e s"
    and "node_dispatch ''pointerup'' e s = stop s"
    and "node_dispatch ''pointercancel'' e s = stop s"
    and "node_dispatch ''pointerleave'' e s = stop s"
  using assms by (simp_all add: node_dispatch_def registered_def)

lemma destroy_registered: "listeners s = registered \<Longrightarrow> destroy s = s"
  by (simp add: destroy_def node_addEventListener_def registered_def)

lemma longpress_attached: "attached (longpress n params)"
  by (simp add: attached_def longpress_def node_addEventListener_def registered_def)

lemma filter_own_timer: "map tid ps = [t] \<Longrightarrow> filter (\<lambda>p. tid p \<noteq> t) ps = []"
  by (cases ps) auto

lemma clear_attached:
  "attached s \<Longrightarrow> clear s = s\<lparr>timer := None, timers := []\<rparr>"
  by (cases "timer s") (simp_all add: attached_def clear_def clearTimeout_def filter_own_timer)

lemma start_attached:
  "attached s \<Longrightarrow>
   start e s = s\<lparr>timer := Some (next_timer s), userSelect := ''none'',
                 timers := [\<lparr>tid = next_timer s, delay = ms s,
                             due = clock s + timer_delay (ms s), captured = e\<rparr>],
                 next_timer := next_timer s + 1\<rparr>"
  by (simp add: start_def Let_def setTimeout_def clear_attached)

lemma stop_attached:
  "attached s \<Longrightarrow> stop s = s\<lparr>timer := None, userSelect := [], timers := []\<rparr>"
proof -
  assume a: "attached s"
  then have "attached (s\<lparr>userSelect := []\<rparr>)" by (simp add: attached_def)
  then show ?thesis by (simp add: stop_def clear_attached)
qed

lemma run_timers_idle: "timers s = [] \<Longrightarrow> run_timers t s = s"
  by (simp add: run_timers.simps)

lemma run_timers_later: "timers s = [p] \<Longrightarrow> t < due p \<Longrightarrow> run_timers t s = s"
  by (simp add: run_timers.simps)

lemma fire_attached:
  "attached s \<Longrightarrow> timers s = [p] \<Longrightarrow>
   fire p s = s\<lparr>timer := None, timers := [], clock := max (clock s) (due p),
                dispatched := dispatched s @ [longpress_event (captured p)]\<rparr>"
  by (simp add: fire_def timer_callback_def clear_def clearTimeout_def longpress_event_def
      attached_def split: option.splits)

lemma run_timers_due:
  "attached s \<Longrightarrow> timers s = [p] \<Longrightarrow> due p \<le> t \<Longrightarrow> run_timers t s = fire p s"
  by (subst run_timers.simps) (simp add: fire_attached run_timers_idle)

lemma step_attached: "attached s \<Longrightarrow> attached (step i s)"
proof -
  assume a: "attached s"
  then have l: "listeners s = registered" by (simp add: attached_def)
  show ?thesis
  proof (cases i)
    case (Elapse d)
    show ?thesis
    proof (cases "timers s")
      case Nil
      with a show ?thesis by (simp add: Elapse elapse_def run_timers_idle attached_def)
    next
      case (Cons p ps)
      with a have ps: "timers s = [p]" by (auto simp: attached_def split: option.splits)
      show ?thesis
      proof (cases "due p \<le> clock s + int d")
        case True
        with a ps show ?thesis
          by (simp add: Elapse elapse_def run_timers_due fire_attached attached_def)
      next
        case False
        with a ps show ?thesis
          by (simp add: Elapse elapse_def run_timers_later attached_def)
      qed
    qed
  qed (use a l in \<open>simp_all add: dispatch_registered destroy_registered start_attached
        stop_attached update_def, simp_all add: attached_def\<close>)
qed

subsection \<open>Runs of inputs\<close>

lemma run_Nil: "run [] s = s"
  by (simp add: run_def)

lemma run_Cons: "run (i # is) s = run is (step i s)"
  by (simp add: run_def)

lemma run_append: "run (is @ js) s = run js (run is s)"
  by (simp add: run_def)

lemma run_attached: "attached s \<Longrightarrow> attached (run is s)"
  by (induction "is" arbitrary: s) (simp_all add: run_Nil run_Cons step_attached)

lemma idle_step:
  assumes "attached s" and "timers s = []" and "no_press i"
  shows "dispatched (step i s) = dispatched s \<and> timers (step i s) = []"
proof -
  from assms have l: "listeners s = registered" by (simp add: attached_def)
  from assms show ?thesis
    by (cases i)
      (simp_all add: dispatch_registered l destroy_registered stop_attached update_def
        elapse_def run_timers_idle)
qed

lemma idle_run:
  assumes "attached s" and "timers s = []" and "list_all no_press is"
  shows "dispatched (run is s) = dispatched s \<and> timers (run is s) = []"
  using assms
proof (induction "is" arbitrary: s)
  case Nil
  then show ?case by (simp add: run_Nil)
next
  case (Cons i "is")
  from Cons.prems have "dispatched (step i s) = dispatched s \<and> timers (step i s) = []"
    by (intro idle_step) simp_all
  moreover from Cons.prems have "attached (step i s)" by (simp add: step_attached)
  ultimately show ?case
    using Cons.IH [of "step i s"] Cons.prems by (simp add: run_Cons)
qed

lemma pending_step:
  assumes "attached s" and "timers s = [p]" and "clock s < due p" and "quiet i"
    and "clock s + int (elapsed [i]) < due p"
  shows "dispatched (step i s) = dispatched s \<and> timers (step i s) = [p] \<and>
         clock (step i s) = clock s + int (elapsed [i])"
proof -
  from assms have l: "listeners s = registered" by (simp add: attached_def)
  from assms show ?thesis
    by (cases i)
      (simp_all add: l destroy_registered update_def elapse_def run_timers_later)
qed

lemma pending_fire:
  assumes "attached s" and "timers s = [p]" and "due p \<le> clock s + int d"
  shows "dispatched (step (Elapse d) s) = dispatched s @ [longpress_event (captured p)] \<and>
         timers (step (Elapse d) s) = []"
  using assms by (simp add: elapse_def run_timers_due fire_attached)

lemma elapsed_Cons: "elapsed (i # is) = elapsed [i] + elapsed is"
  by (cases i) simp_all

lemma pending_run:
  assumes "attached s" and "timers s = [p]" and "clock s < due p" and "list_all quiet is"
  shows "(clock s + int (elapsed is) < due p \<longrightarrow>
            dispatched (run is s) = dispatched s \<and> timers (run is s) = [p]) \<and>
         (due p \<le> clock s + int (elapsed is) \<longrightarrow>
            dispatched (run is s) = dispatched s @ [longpress_event (captured p)] \<and>
            timers (run is s) = [])"
  using assms
proof (induction "is" arbitrary: s)
  case Nil
  then show ?case by (simp add: run_Nil)
next
  case (Cons i "is")
  have att: "attached (step i s)" using Cons.prems by (simp add: step_attached)
  have q: "quiet i" "list_all quiet is" using Cons.prems by simp_all
  show ?case
  proof (cases "clock s + int (elapsed [i]) < due p")
    case True
    with Cons.prems q have st: "dispatched (step i s) = dispatched s" "timers (step i s) = [p]"
      "clock (step i s) = clock s + int (elapsed [i])"
      using pending_step [of s p i] by simp_all
    with True have "clock (step i s) < due p" by simp
    from Cons.IH [OF att st(2) this q(2)] st show ?thesis
      by (simp add: run_Cons elapsed_Cons [of i "is"] add.assoc)
  next
    case False
    with Cons.prems q obtain d where i: "i = Elapse d"
      by (cases i) simp_all
    with False have due: "due p \<le> clock s + int d" by simp
    from pending_fire [OF Cons.prems(1,2) due]
    have f: "dispatched (step i s) = dispatched s @ [longpress_event (captured p)]"
      "timers (step i s) = []" by (simp_all add: i)
    have np: "list_all no_press is"
      using q(2) by (induction "is") (auto elim: quiet.elims)
    from idle_run [OF att f(2) np] f due show ?thesis
      by (simp add: run_Cons i)
  qed
qed

lemma interruption_step:
  "attached s \<Longrightarrow> interruption i \<Longrightarrow> step i s = stop s"
  by (cases i) (simp_all add: dispatch_registered attached_def)

lemma press_step: "attached s \<Longrightarrow> step (PointerDown e) s = start e s"
  by (simp add: dispatch_registered attached_def)

subsection \<open>Timing\<close>

text \<open>
  C6: with the threshold 600 ms, a pointer-down followed only by quiet inputs (time
  passing, update, destroy) that take at least 600 ms dispatches exactly one
  \<^verbatim>\<open>longpress\<close> event, whose \<^verbatim>\<open>pointerType\<close> is that of the pointer-down, and nothing more
  as long as no new press starts. A pointer-down interrupted by pointer-up,
  pointer-cancel or pointer-leave before 600 ms have passed cancels the pending timer and
  dispatches nothing, whatever follows short of a new press.
\<close>

theorem longpress_timing:
  assumes "attached s" and "ms s = 600" and "list_all quiet is" and "list_all no_press js"
  shows "(600 \<le> elapsed is \<longrightarrow>
            dispatched (run (PointerDown e # is @ js) s) = dispatched s @ [longpress_event e]) \<and>
         (elapsed is < 600 \<and> interruption i \<longrightarrow>
            timers (run (PointerDown e # is @ [i]) s) = [] \<and>
            timer (run (PointerDown e # is @ [i]) s) = None \<and>
            dispatched (run (PointerDown e # is @ i # js) s) = dispatched s)"
proof -
  define p where "p = \<lparr>tid = next_timer s, delay = 600, due = clock s + 600, captured = e\<rparr>"
  define s1 where "s1 = step (PointerDown e) s"
  have s1: "s1 = s\<lparr>timer := Some (next_timer s), userSelect := ''none'', timers := [p],
                  next_timer := next_timer s + 1\<rparr>"
    using assms(1,2) by (simp only: s1_def press_step start_attached p_def) (simp add: timer_delay_def)
  have att1: "attached s1"
    unfolding s1_def using assms(1) by (rule step_attached)
  have t1: "timers s1 = [p]" and c1: "clock s1 < due p" and d1: "dispatched s1 = dispatched s"
    by (simp_all add: s1 p_def)
  note pr = pending_run [OF att1 t1 c1 assms(3)]
  have att2: "attached (run is s1)"
    using att1 by (rule run_attached)
  have a: "dispatched (run (PointerDown e # is @ js) s) = dispatched s @ [longpress_event e]"
    if "600 \<le> elapsed is"
  proof -
    from that have "due p \<le> clock s1 + int (elapsed is)"
      by (simp add: s1 p_def)
    with pr have f: "dispatched (run is s1) = dispatched s @ [longpress_event e]"
      "timers (run is s1) = []"
      by (simp_all add: d1 p_def)
    from idle_run [OF att2 f(2) assms(4)] f(1) show ?thesis
      by (simp add: run_Cons run_append s1_def)
  qed
  have b: "timers (run (PointerDown e # is @ [i]) s) = [] \<and>
           timer (run (PointerDown e # is @ [i]) s) = None \<and>
           dispatched (run (PointerDown e # is @ i # js) s) = dispatched s"
    if "elapsed is < 600" and "interruption i"
  proof -
    from that(1) have "clock s1 + int (elapsed is) < due p"
      by (simp add: s1 p_def)
    with pr have f: "dispatched (run is s1) = dispatched s" by (simp add: d1)
    have st: "step i (run is s1) = (run is s1)\<lparr>timer := None, userSelect := [], timers := []\<rparr>"
      using att2 that(2) by (simp add: interruption_step stop_attached)
    have att3: "attached (step i (run is s1))"
      using att2 by (rule step_attached)
    have t3: "timers (step i (run is s1)) = []" by (simp add: st)
    from idle_run [OF att3 t3 assms(4)] f st show ?thesis
      by (simp add: run_Cons run_append run_Nil s1_def)
  qed
  from a b show ?thesis by blast
qed

theorem longpress_timing_witness:
  "attached (longpress 0 None) \<and> ms (longpress 0 None) = 600 \<and>
   list_all quiet [Elapse 600] \<and> list_all quiet [Elapse 300] \<and> list_all no_press [Elapse 1000] \<and>
   interruption (PointerUp mouse_down) \<and>
   dispatched (run (PointerDown mouse_down # [Elapse 600] @ [Elapse 1000]) (longpress 0 None)) =
     [longpress_event mouse_down] \<and>
   timers (run (PointerDown mouse_down # [Elapse 300] @ [PointerUp mouse_down]) (longpress 0 None)) = [] \<and>
   dispatched (run (PointerDown mouse_down # [Elapse 300] @ PointerUp mouse_down # [Elapse 1000])
     (longpress 0 None)) = []"
proof -
  have h: "attached (longpress 0 None)" "ms (longpress 0 None) = 600"
    "list_all quiet [Elapse 600]" "list_all quiet [Elapse 300]" "list_all no_press [Elapse 1000]"
    "interruption (PointerUp mouse_down)" "dispatched (longpress 0 None) = []"
    by (simp_all add: attached_def registered_def longpress_def node_addEventListener_def ms_of_def)
  from longpress_timing [OF h(1,2,3,5), of mouse_down]
    longpress_timing [OF h(1,2,4,5), of mouse_down "PointerUp mouse_down"] h
  show ?thesis by simp
qed

subsection \<open>Update\<close>

lemma attached_ms: "attached (s\<lparr>ms := m\<rparr>) = attached s"
  by (simp add: attached_def)

lemma step_ms:
  assumes "attached s" and "no_press i"
  shows "\<exists>m'. step i (s\<lparr>ms := m\<rparr>) = (step i s)\<lparr>ms := m'\<rparr>"
proof -
  have a: "attached (s\<lparr>ms := m\<rparr>)" using assms(1) by (simp add: attached_ms)
  have l: "listeners s = registered" using assms(1) by (simp add: attached_def)
  show ?thesis
  proof (cases i)
    case (PointerDown e)
    with assms show ?thesis by simp
  next
    case (PointerUp e)
    have "step i (s\<lparr>ms := m\<rparr>) = (step i s)\<lparr>ms := m\<rparr>"
      using interruption_step [OF a, of i] interruption_step [OF assms(1), of i]
      by (simp add: PointerUp stop_attached [OF a] stop_attached [OF assms(1)])
    then show ?thesis ..
  next
    case (PointerCancel e)
    have "step i (s\<lparr>ms := m\<rparr>) = (step i s)\<lparr>ms := m\<rparr>"
      using interruption_step [OF a, of i] interruption_step [OF assms(1), of i]
      by (simp add: PointerCancel stop_attached [OF a] stop_attached [OF assms(1)])
    then show ?thesis ..
  next
    case (PointerLeave e)
    have "step i (s\<lparr>ms := m\<rparr>) = (step i s)\<lparr>ms := m\<rparr>"
      using interruption_step [OF a, of i] interruption_step [OF assms(1), of i]
      by (simp add: PointerLeave stop_attached [OF a] stop_attached [OF assms(1)])
    then show ?thesis ..
  next
    case (Elapse d)
    have "elapse d (s\<lparr>ms := m\<rparr>) = (elapse d s)\<lparr>ms := m\<rparr>"
    proof (cases "timers s")
      case Nil
      then show ?thesis by (simp add: elapse_def run_timers_idle)
    next
      case (Cons p ps)
      with assms(1) have ps: "timers s = [p]" by (auto simp: attached_def split: option.splits)
      then have ps': "timers (s\<lparr>ms := m\<rparr>) = [p]" by simp
      show ?thesis
      proof (cases "due p \<le> clock s + int d")
        case True
        then show ?thesis
          using run_timers_due [OF a ps'] run_timers_due [OF assms(1) ps]
          by (simp add: elapse_def fire_attached [OF a ps'] fire_attached [OF assms(1) ps])
      next
        case False
        then show ?thesis
          using run_timers_later [OF ps'] run_timers_later [OF ps]
          by (simp add: elapse_def)
      qed
    qed
    then have "step i (s\<lparr>ms := m\<rparr>) = (step i s)\<lparr>ms := m\<rparr>" by (simp add: Elapse)
    then show ?thesis ..
  next
    case (Update "next")
    have "step i (s\<lparr>ms := m\<rparr>) = (step i s)\<lparr>ms := ms_of next\<rparr>"
      by (simp add: Update update_def)
    then show ?thesis ..
  next
    case Destroy
    have "step i (s\<lparr>ms := m\<rparr>) = (step i s)\<lparr>ms := m\<rparr>"
      using a l by (simp add: Destroy destroy_registered)
    then show ?thesis ..
  qed
qed

lemma run_ms:
  assumes "attached s" and "list_all no_press is"
  shows "\<exists>m'. run is (s\<lparr>ms := m\<rparr>) = (run is s)\<lparr>ms := m'\<rparr>"
  using assms
proof (induction "is" arbitrary: s m)
  case Nil
  show ?case by (auto simp: run_Nil)
next
  case (Cons i "is")
  from Cons.prems obtain m' where m': "step i (s\<lparr>ms := m\<rparr>) = (step i s)\<lparr>ms := m'\<rparr>"
    using step_ms [of s i m] by auto
  have "attached (step i s)" using Cons.prems by (simp add: step_attached)
  from Cons.IH [OF this, of m'] Cons.prems m' show ?case
    by (simp add: run_Cons)
qed

text \<open>
  C8: \<^verbatim>\<open>update\<close> leaves the pending timers as they are, and as long as no new press starts
  an attachment that was updated dispatches the same events and holds the same pending
  timers, with the same due times, as one that was not: the running timer fires when it
  would have fired. A press started after the update hands the new threshold to
  \<^verbatim>\<open>setTimeout\<close>; when the new threshold fits the timer's 32 bits, the timer of that press
  is due after the new threshold (at once when it is below zero).
\<close>

theorem longpress_update_frame:
  assumes "attached s" and "list_all no_press is"
  shows "timers (update next s) = timers s \<and>
         timers (run is (update next s)) = timers (run is s) \<and>
         dispatched (run is (update next s)) = dispatched (run is s) \<and>
         map tid (timers (step (PointerDown e) (update next s))) = [next_timer s] \<and>
         map delay (timers (step (PointerDown e) (update next s))) = [ms_of next] \<and>
         map captured (timers (step (PointerDown e) (update next s))) = [e] \<and>
         (ms_of next \<le> 2147483647 \<longrightarrow>
            map due (timers (step (PointerDown e) (update next s))) =
              [clock s + max 0 (ms_of next)])"
proof -
  from run_ms [OF assms, of "ms_of next"] obtain m'
    where "run is (update next s) = (run is s)\<lparr>ms := m'\<rparr>"
    by (auto simp: update_def)
  then have r: "timers (run is (update next s)) = timers (run is s)"
    "dispatched (run is (update next s)) = dispatched (run is s)"
    by simp_all
  have a: "attached (update next s)"
    using assms(1) by (simp add: update_def attached_ms)
  have "step (PointerDown e) (update next s) = start e (update next s)"
    using a by (rule press_step)
  then have p: "timers (step (PointerDown e) (update next s)) =
           [\<lparr>tid = next_timer s, delay = ms_of next,
             due = clock s + timer_delay (ms_of next), captured = e\<rparr>]"
    by (simp only: start_attached [OF a]) (simp add: update_def)
  have d: "map due (timers (step (PointerDown e) (update next s))) =
             [clock s + max 0 (ms_of next)]"
    if "ms_of next \<le> 2147483647"
    using that by (simp only: p) (simp add: timer_delay_def)
  have f: "map tid (timers (step (PointerDown e) (update next s))) = [next_timer s]"
    "map delay (timers (step (PointerDown e) (update next s))) = [ms_of next]"
    "map captured (timers (step (PointerDown e) (update next s))) = [e]"
    by (simp_all only: p) simp_all
  have "timers (update next s) = timers s" by (simp add: update_def)
  with r f d show ?thesis by blast
qed

theorem longpress_update_frame_witness:
  "attached (step (PointerDown mouse_down) (longpress 0 None)) \<and>
   list_all no_press [Elapse 600] \<and>
   ms_of (Some \<lparr>ms_param = Some 5000\<rparr>) \<le> 2147483647 \<and>
   dispatched (run [Elapse 600]
     (update (Some \<lparr>ms_param = Some 5000\<rparr>) (step (PointerDown mouse_down) (longpress 0 None)))) =
     [longpress_event mouse_down] \<and>
   map delay (timers (step (PointerDown mouse_down)
     (update (Some \<lparr>ms_param = Some 5000\<rparr>) (step (PointerDown mouse_down) (longpress 0 None))))) =
     [5000] \<and>
   map due (timers (step (PointerDown mouse_down)
     (update (Some \<lparr>ms_param = Some 5000\<rparr>) (step (PointerDown mouse_down) (longpress 0 None))))) =
     [5000]"
proof -
  let ?s = "step (PointerDown mouse_down) (longpress 0 None)"
  have h: "attached ?s" "list_all no_press [Elapse 600]"
    by (simp_all add: step_attached longpress_attached del: step.simps)
  have d: "dispatched (run [Elapse 600] ?s) = [longpress_event mouse_down]"
    by code_simp
  have c: "clock ?s = 0" "ms_of (Some \<lparr>ms_param = Some 5000\<rparr>) = 5000"
    by code_simp+
  from longpress_update_frame [OF h, of "Some \<lparr>ms_param = Some 5000\<rparr>" mouse_down] h d c
  show ?thesis by (simp del: step.simps)
qed

subsection \<open>Text selection\<close>

lemma quiet_userSelect:
  assumes "attached s" and "quiet i"
  shows "userSelect (step i s) = userSelect s"
proof (cases i)
  case (Elapse d)
  show ?thesis
  proof (cases "timers s")
    case Nil
    then show ?thesis by (simp add: Elapse elapse_def run_timers_idle)
  next
    case (Cons p ps)
    with assms(1) have ps: "timers s = [p]" by (auto simp: attached_def split: option.splits)
    show ?thesis
    proof (cases "due p \<le> clock s + int d")
      case True
      then show ?thesis
        by (simp add: Elapse elapse_def run_timers_due [OF assms(1) ps] fire_attached [OF assms(1) ps])
    next
      case False
      then show ?thesis
        by (simp add: Elapse elapse_def run_timers_later [OF ps])
    qed
  qed
next
  case Destroy
  with assms(1) show ?thesis by (simp add: destroy_registered attached_def)
qed (use assms in \<open>simp_all add: update_def\<close>)

lemma quiet_run_userSelect:
  assumes "attached s" and "list_all quiet is"
  shows "userSelect (run is s) = userSelect s"
  using assms
proof (induction "is" arbitrary: s)
  case Nil
  show ?case by (simp add: run_Nil)
next
  case (Cons i "is")
  have "attached (step i s)" using Cons.prems by (simp add: step_attached)
  from Cons.IH [OF this] Cons.prems show ?case
    by (simp add: run_Cons quiet_userSelect)
qed

lemma fire_userSelect: "userSelect (fire p s) = userSelect s"
  by (simp add: fire_def timer_callback_def clear_def clearTimeout_def split: option.splits)

text \<open>
  C10: the firing of the timer does not touch \<^verbatim>\<open>userSelect\<close>. After a pointer-down and
  the elapse of the threshold the \<^verbatim>\<open>longpress\<close> event has been dispatched and
  \<^verbatim>\<open>userSelect\<close> is still \<^verbatim>\<open>none\<close>; it stays so through any quiet inputs, until a
  pointer-up, pointer-cancel or pointer-leave resets it to the empty string; a new
  pointer-down sets it to \<^verbatim>\<open>none\<close> again.
\<close>

theorem longpress_fire_keeps_userSelect:
  assumes "attached s" and "ms s \<le> int d" and "list_all quiet is"
  shows "userSelect (fire p s') = userSelect s' \<and>
         dispatched (run [PointerDown e, Elapse d] s) = dispatched s @ [longpress_event e] \<and>
         userSelect (run [PointerDown e, Elapse d] s) = ''none'' \<and>
         userSelect (run (PointerDown e # Elapse d # is) s) = ''none'' \<and>
         (interruption i \<longrightarrow> userSelect (run (PointerDown e # Elapse d # is @ [i]) s) = []) \<and>
         userSelect (run (PointerDown e # Elapse d # is @ [PointerDown e']) s) = ''none''"
proof -
  define p0 where
    "p0 = \<lparr>tid = next_timer s, delay = ms s, due = clock s + timer_delay (ms s), captured = e\<rparr>"
  define s1 where "s1 = step (PointerDown e) s"
  have s1: "s1 = s\<lparr>timer := Some (next_timer s), userSelect := ''none'', timers := [p0],
                  next_timer := next_timer s + 1\<rparr>"
    using assms(1) by (simp only: s1_def press_step start_attached p0_def)
  have att1: "attached s1"
    unfolding s1_def using assms(1) by (rule step_attached)
  have t1: "timers s1 = [p0]" by (simp add: s1)
  have due: "due p0 \<le> clock s1 + int d"
    using assms(2) by (simp add: s1 p0_def timer_delay_def)
  define s2 where "s2 = step (Elapse d) s1"
  have att2: "attached s2"
    unfolding s2_def using att1 by (rule step_attached)
  have f: "dispatched s2 = dispatched s @ [longpress_event e]" "userSelect s2 = ''none''"
    by (simp_all add: s2_def elapse_def run_timers_due [OF att1 t1 due] fire_attached [OF att1 t1])
      (simp_all add: s1 p0_def)
  define s3 where "s3 = run is s2"
  have att3: "attached s3"
    unfolding s3_def using att2 by (rule run_attached)
  have u3: "userSelect s3 = ''none''"
    unfolding s3_def using quiet_run_userSelect [OF att2 assms(3)] f(2) by simp
  have r2: "run [PointerDown e, Elapse d] s = s2"
    by (simp only: run_Cons run_Nil s2_def s1_def)
  have r3: "run (PointerDown e # Elapse d # is) s = s3"
    by (simp only: run_Cons s3_def s2_def s1_def)
  have r4: "run (PointerDown e # Elapse d # is @ [j]) s = step j s3" for j
    by (simp only: run_Cons run_append run_Nil s3_def s2_def s1_def)
  have i: "userSelect (step i s3) = []" if "interruption i"
    using att3 that by (simp add: interruption_step stop_attached)
  have d: "userSelect (step (PointerDown e') s3) = ''none''"
    by (simp only: press_step [OF att3] start_attached [OF att3]) simp
  from f u3 i d show ?thesis
    by (simp only: r2 r3 r4 fire_userSelect) simp
qed

theorem longpress_fire_keeps_userSelect_witness:
  "attached (longpress 0 None) \<and> ms (longpress 0 None) \<le> int 600 \<and>
   list_all quiet [Elapse 50, Destroy] \<and> interruption (PointerLeave mouse_down) \<and>
   dispatched (run [PointerDown mouse_down, Elapse 600] (longpress 0 None)) =
     [longpress_event mouse_down] \<and>
   userSelect (run (PointerDown mouse_down # Elapse 600 # [Elapse 50, Destroy]) (longpress 0 None)) =
     ''none'' \<and>
   userSelect (run (PointerDown mouse_down # Elapse 600 # [Elapse 50, Destroy] @ [PointerLeave mouse_down])
     (longpress 0 None)) = []"
proof -
  have h: "attached (longpress 0 None)" "ms (longpress 0 None) \<le> int 600"
    "list_all quiet [Elapse 50, Destroy]" "interruption (PointerLeave mouse_down)"
    "dispatched (longpress 0 None) = []"
    by (simp_all add: attached_def registered_def longpress_def node_addEventListener_def ms_of_def)
  from longpress_fire_keeps_userSelect [OF h(1,2,3), of _ _ mouse_down "PointerLeave mouse_down"] h
  show ?thesis by simp
qed

subsection \<open>Thresholds of zero and below\<close>

text \<open>
  The threshold is not clamped: with the threshold 0 at attach, or \<open>-5\<close> set by
  \<^verbatim>\<open>update\<close>, the delay handed to \<^verbatim>\<open>setTimeout\<close> is 0, or \<open>-5\<close>, not 1, and the event is
  dispatched when no time at all has passed.
\<close>

theorem longpress_threshold_clamped_counterexample:
  "map delay (timers (step (PointerDown mouse_down)
      (longpress 0 (Some \<lparr>ms_param = Some 0\<rparr>)))) = [0] \<and>
   map delay (timers (step (PointerDown mouse_down)
      (update (Some \<lparr>ms_param = Some (- 5)\<rparr>) (longpress 0 None)))) = [- 5] \<and>
   dispatched (run [PointerDown mouse_down, Elapse 0]
      (longpress 0 (Some \<lparr>ms_param = Some 0\<rparr>))) = [longpress_event mouse_down]"
  by code_simp

text \<open>
  C4, as the source has it: a threshold of zero or below, given at attach or by
  \<^verbatim>\<open>update\<close>, is stored and handed to \<^verbatim>\<open>setTimeout\<close> as it is, without clamping to 1 ms.
  Nothing throws; the timer is due at once and the \<^verbatim>\<open>longpress\<close> event is dispatched
  exactly once, as soon as the timers run.
\<close>

theorem longpress_nonpositive_threshold:
  assumes "attached s" and "m \<le> 0"
  shows "ms (longpress n (Some \<lparr>ms_param = Some m\<rparr>)) = m \<and>
         ms (update (Some \<lparr>ms_param = Some m\<rparr>) s) = m \<and>
         timers (run [Update (Some \<lparr>ms_param = Some m\<rparr>), PointerDown e] s) =
           [\<lparr>tid = next_timer s, delay = m, due = clock s, captured = e\<rparr>] \<and>
         dispatched (run [Update (Some \<lparr>ms_param = Some m\<rparr>), PointerDown e, Elapse d] s) =
           dispatched s @ [longpress_event e]"
proof -
  let ?u = "Some \<lparr>ms_param = Some m\<rparr>"
  have m: "ms_of ?u = m" by (simp add: ms_of_def)
  have 1: "ms (longpress n ?u) = m"
    by (simp add: longpress_def node_addEventListener_def m)
  have 2: "ms (update ?u s) = m" by (simp add: update_def m)
  define s1 where "s1 = update ?u s"
  have att1: "attached s1"
    using assms(1) by (simp add: s1_def update_def attached_ms)
  define p where "p = \<lparr>tid = next_timer s, delay = m, due = clock s, captured = e\<rparr>"
  define s2 where "s2 = step (PointerDown e) s1"
  have s2: "s2 = s1\<lparr>timer := Some (next_timer s), userSelect := ''none'', timers := [p],
                   next_timer := next_timer s + 1\<rparr>"
    using assms(2) by (simp only: s2_def press_step [OF att1] start_attached [OF att1])
      (simp add: s1_def update_def m p_def timer_delay_def)
  have att2: "attached s2"
    unfolding s2_def using att1 by (rule step_attached)
  have t2: "timers s2 = [p]" by (simp add: s2)
  have due: "due p \<le> clock s2 + int d" by (simp add: s2 p_def s1_def update_def)
  have 4: "dispatched (step (Elapse d) s2) = dispatched s @ [longpress_event e]"
    using pending_fire [OF att2 t2 due] by (simp add: s2 p_def s1_def update_def)
  have r3: "run [Update ?u, PointerDown e] s = s2"
    by (simp only: run_Cons run_Nil s2_def s1_def step.simps(6))
  have r4: "run [Update ?u, PointerDown e, Elapse d] s = step (Elapse d) s2"
    by (simp only: run_Cons run_Nil s2_def s1_def step.simps(6))
  from 1 2 t2 4 show ?thesis
    by (simp only: r3 r4 p_def)
qed

theorem longpress_nonpositive_threshold_witness:
  "attached (longpress 0 None) \<and> (- 5 :: int) \<le> 0 \<and>
   map delay (timers (run [Update (Some \<lparr>ms_param = Some (- 5)\<rparr>), PointerDown mouse_down]
     (longpress 0 None))) = [- 5] \<and>
   dispatched (run [Update (Some \<lparr>ms_param = Some (- 5)\<rparr>), PointerDown mouse_down, Elapse 0]
     (longpress 0 None)) = [longpress_event mouse_down]"
proof -
  have h: "attached (longpress 0 None)" "(- 5 :: int) \<le> 0" "dispatched (longpress 0 None) = []"
    by (simp_all add: attached_def registered_def longpress_def node_addEventListener_def ms_of_def)
  from longpress_nonpositive_threshold [OF h(1,2), of _ mouse_down 0] h
  show ?thesis by simp
qed

subsection \<open>Destroy\<close>

text \<open>
  C1: \<^verbatim>\<open>destroy\<close> is to remove the four listeners and to cancel a pending timer, so that
  nothing happens on the element afterwards. The source's \<^verbatim>\<open>destroy\<close> calls
  \<^verbatim>\<open>addEventListener\<close> four times and never \<^verbatim>\<open>clear\<close>: it changes nothing. After
  \<^verbatim>\<open>destroy\<close> the four listeners are still registered, a pending timer is still pending
  and fires, and a later pointer-down starts a timer that fires too.
\<close>

theorem longpress_destroy_keeps_listeners:
  "listeners (destroy (longpress 0 None)) = registered \<and>
   destroy (step (PointerDown mouse_down) (longpress 0 None)) =
     step (PointerDown mouse_down) (longpress 0 None) \<and>
   map tid (timers (run [PointerDown mouse_down, Destroy] (longpress 0 None))) = [1] \<and>
   dispatched (run [PointerDown mouse_down, Destroy, Elapse 600] (longpress 0 None)) =
     [longpress_event mouse_down] \<and>
   dispatched (run [Destroy, PointerDown mouse_down, Elapse 600] (longpress 0 None)) =
     [longpress_event mouse_down]"
  by code_simp

section \<open>Properties of tooltip\<close>








text \<open>
  The action has no catch. A create call that throws at attach makes the action itself
  throw. One that throws during \<^verbatim>\<open>update\<close> makes \<^verbatim>\<open>update\<close> throw, and the instance
  reference still names the previous instance, which has just been destroyed.
\<close>

theorem tooltip_create_throws_counterexample:
  "fst (tooltip always_throws 0 (tip ''A'') empty_world) = Inl TippyError \<and>
   fst (tooltip_update (throws_on ''B'') 0 (tip ''B'')
          (snd (tooltip (throws_on ''B'') 0 (tip ''A'') empty_world))) = Some TippyError \<and>
   instance_ref (snd (tooltip_update (throws_on ''B'') 0 (tip ''B'')
          (snd (tooltip (throws_on ''B'') 0 (tip ''A'') empty_world)))) = Some 0 \<and>
   instances (world (snd (tooltip_update (throws_on ''B'') 0 (tip ''B'')
          (snd (tooltip (throws_on ''B'') 0 (tip ''A'') empty_world))))) = []"
  by code_simp

text \<open>
  C3, as the source has it: when the library's create call throws, the exception reaches
  the caller. At attach the action returns no handle and the instance reference is
  null. During \<^verbatim>\<open>update\<close> the previous instance has been destroyed and the reference
  still names it; a later \<^verbatim>\<open>update\<close> whose create call does not throw installs a new
  live instance.
\<close>

theorem tooltip_create_throws:
  assumes "instance_ref st = Some i"
    and "throws (instance_destroy i (world st)) n (props_of p)"
    and "\<not> throws (instance_destroy i (world (snd (tooltip_update throws n p st)))) n (props_of q)"
  shows "fst (tooltip_update throws n p st) = Some TippyError \<and>
         instance_ref (snd (tooltip_update throws n p st)) = Some i \<and>
         i \<notin> fst ` set (instances (world (snd (tooltip_update throws n p st)))) \<and>
         fst (tooltip_update throws n q (snd (tooltip_update throws n p st))) = None \<and>
         instance_ref (snd (tooltip_update throws n q (snd (tooltip_update throws n p st)))) =
           Some (next_instance (world st)) \<and>
         last (instances (world (snd (tooltip_update throws n q (snd (tooltip_update throws n p st))))))
           = (next_instance (world st), n, props_of q) \<and>
         (throws w n (props_of p) \<longrightarrow>
            tooltip throws n p w =
              (Inl TippyError,
               \<lparr>instance_ref = None, world = w\<lparr>calls := calls w @ [Create n (props_of p)]\<rparr>\<rparr>))"
proof -
  define w1 where "w1 = instance_destroy i (world st)"
  define st1 where "st1 = st\<lparr>world := w1\<lparr>calls := calls w1 @ [Create n (props_of p)]\<rparr>\<rparr>"
  have u1: "tooltip_update throws n p st = (Some TippyError, st1)"
    using assms(1,2) by (simp add: tooltip_update_def setup_tooltip_def tippy_def w1_def st1_def Let_def)
  have r1: "instance_ref st1 = Some i" using assms(1) by (simp add: st1_def)
  have gone: "i \<notin> fst ` set (instances (world st1))"
    by (auto simp: st1_def w1_def instance_destroy_def)
  have nt: "\<not> throws (instance_destroy i (world st1)) n (props_of q)"
    using assms(3) by (simp add: u1)
  define st2 where "st2 = snd (tooltip_update throws n q st1)"
  have u2: "fst (tooltip_update throws n q st1) = None"
    "instance_ref st2 = Some (next_instance (world st))"
    "last (instances (world st2)) = (next_instance (world st), n, props_of q)"
    using r1 nt
    by (simp_all add: st2_def tooltip_update_def setup_tooltip_def tippy_def Let_def)
      (simp_all add: st1_def w1_def instance_destroy_def)
  have a: "tooltip throws n p w =
              (Inl TippyError,
               \<lparr>instance_ref = None, world = w\<lparr>calls := calls w @ [Create n (props_of p)]\<rparr>\<rparr>)"
    if "throws w n (props_of p)"
    using that by (simp add: tooltip_def setup_tooltip_def tippy_def Let_def)
  from r1 gone u2 a show ?thesis
    by (simp add: u1 st2_def [symmetric])
qed

theorem tooltip_create_throws_witness:
  "instance_ref (snd (tooltip (throws_on ''B'') 0 (tip ''A'') empty_world)) = Some 0 \<and>
   throws_on ''B'' (instance_destroy 0 (world (snd (tooltip (throws_on ''B'') 0 (tip ''A'') empty_world))))
     0 (props_of (tip ''B'')) \<and>
   \<not> throws_on ''B'' empty_world 0 (props_of (tip ''C'')) \<and>
   throws_on ''B'' empty_world 0 (props_of (tip ''B'')) \<and>
   fst (tooltip_update (throws_on ''B'') 0 (tip ''B'')
          (snd (tooltip (throws_on ''B'') 0 (tip ''A'') empty_world))) = Some TippyError \<and>
   instance_ref (snd (tooltip_update (throws_on ''B'') 0 (tip ''C'')
     (snd (tooltip_update (throws_on ''B'') 0 (tip ''B'')
          (snd (tooltip (throws_on ''B'') 0 (tip ''A'') empty_world)))))) = Some 1 \<and>
   fst (tooltip (throws_on ''B'') 0 (tip ''B'') empty_world) = Inl TippyError"
proof -
  let ?st = "snd (tooltip (throws_on ''B'') 0 (tip ''A'') empty_world)"
  have h: "instance_ref ?st = Some 0"
    "throws_on ''B'' (instance_destroy 0 (world ?st)) 0 (props_of (tip ''B''))"
    "\<not> throws_on ''B'' (instance_destroy 0 (world (snd (tooltip_update (throws_on ''B'') 0 (tip ''B'') ?st))))
        0 (props_of (tip ''C''))"
    "\<not> throws_on ''B'' empty_world 0 (props_of (tip ''C''))"
    "throws_on ''B'' empty_world 0 (props_of (tip ''B''))"
    "next_instance (world ?st) = 1"
    by code_simp+
  from tooltip_create_throws [OF h(1,2,3), of empty_world] h
  show ?thesis by simp
qed

text \<open>
  C2: the handle is to have a \<^verbatim>\<open>destroy\<close> operation that destroys the current instance.
  The source spells the key \<^verbatim>\<open>destory\<close>: the handle has no \<^verbatim>\<open>destroy\<close>; calling it throws
  a TypeError, calling it optionally does nothing, and in both cases the instance stays
  live. The operation under the key \<^verbatim>\<open>destory\<close> does destroy the instance.
\<close>

theorem tooltip_handle_has_no_destroy:
  "fst (tooltip never_throws 0 (tip ''A'') empty_world) =
     Inr [(''update'', Update_closure), (''destory'', Destory_closure)] \<and>
   map_of [(''update'', Update_closure), (''destory'', Destory_closure)] ''destroy'' = None \<and>
   fst (call_member never_throws 0 [(''update'', Update_closure), (''destory'', Destory_closure)]
          ''destroy'' (tip ''A'') (snd (tooltip never_throws 0 (tip ''A'') empty_world))) =
     Some TypeError \<and>
   instances (world (snd (call_member never_throws 0
          [(''update'', Update_closure), (''destory'', Destory_closure)]
          ''destroy'' (tip ''A'') (snd (tooltip never_throws 0 (tip ''A'') empty_world))))) =
     [(0, 0, props_of (tip ''A''))] \<and>
   instances (world (snd (optional_call never_throws 0
          [(''update'', Update_closure), (''destory'', Destory_closure)]
          ''destroy'' (tip ''A'') (snd (tooltip never_throws 0 (tip ''A'') empty_world))))) =
     [(0, 0, props_of (tip ''A''))] \<and>
   instances (world (snd (call_member never_throws 0
          [(''update'', Update_closure), (''destory'', Destory_closure)]
          ''destory'' (tip ''A'') (snd (tooltip never_throws 0 (tip ''A'') empty_world))))) = []"
  by code_simp

end
